theory Spec2Isabelle
  imports Main "HOL-Library.Sublist" "HOL-Library.Monad_Syntax"
begin

unbundle bit_operations_syntax

text \<open>
  The package \<open>debughttp\<close> wraps an HTTP transport and logs each round trip: the dump
  of the request, with the values of the authentication headers masked, the dispatch,
  and the dump of the response. This theory embeds the functions \<open>cleanAuth\<close>,
  \<open>cleanAuths\<close>, \<open>New\<close> and \<open>RoundTrip\<close> of \<open>debughttp.go\<close> and examines the
  claims C1 to C10 about them.
\<close>

section \<open>Byte buffers\<close>

text \<open>
  A Go \<open>[]byte\<close> is modelled by the list of the bytes between index 0 and its length;
  a byte is a \<open>char\<close> (eight bits). Go's \<open>int\<close> values (indices, lengths, the results
  of \<open>bytes.Index\<close>) are HOL integers. A run-time panic (index or slice bound out of
  range) is the value \<open>None\<close>.
\<close>

type_synonym byte = char

abbreviation LF :: byte where
  "LF \<equiv> CHR 0x0A"

abbreviation CR :: byte where
  "CR \<equiv> CHR 0x0D"

abbreviation MaskX :: byte where
  "MaskX \<equiv> CHR ''X''"

abbreviation len :: "'a list \<Rightarrow> int" where
  "len xs \<equiv> int (length xs)"

text \<open>\<open>buf[:hi]\<close>. Go allows \<open>hi\<close> up to the capacity; the model panics already beyond the
  length, so a run without panic in the model is one without panic in Go.\<close>

definition slice_to :: "byte list \<Rightarrow> int \<Rightarrow> byte list option" where
  "slice_to buf hi = (if 0 \<le> hi \<and> hi \<le> len buf then Some (take (nat hi) buf) else None)"

text \<open>\<open>buf[lo:]\<close>\<close>

definition slice_from :: "byte list \<Rightarrow> int \<Rightarrow> byte list option" where
  "slice_from buf lo = (if 0 \<le> lo \<and> lo \<le> len buf then Some (drop (nat lo) buf) else None)"

text \<open>\<open>buf[i]\<close> read and \<open>buf[i] = c\<close> written, both bounds-checked.\<close>

definition index_get :: "byte list \<Rightarrow> int \<Rightarrow> byte option" where
  "index_get buf i = (if 0 \<le> i \<and> i < len buf then Some (buf ! nat i) else None)"

definition index_set :: "byte list \<Rightarrow> int \<Rightarrow> byte \<Rightarrow> byte list option" where
  "index_set buf i c = (if 0 \<le> i \<and> i < len buf then Some (buf[nat i := c]) else None)"

text \<open>\<open>n = copy(buf[d:], buf[s:])\<close>: both slices are views of the same array; the built-in
  copies \<open>min (len dst) (len src)\<close> bytes as if through a temporary (overlap is allowed)
  and returns that number. The result is the array after the copy, and \<open>n\<close>.\<close>

definition copy_within :: "byte list \<Rightarrow> int \<Rightarrow> int \<Rightarrow> (byte list \<times> int) option" where
  "copy_within buf d s =
     do {
       dst \<leftarrow> slice_from buf d;
       src \<leftarrow> slice_from buf s;
       let n = min (len dst) (len src);
       Some (take (nat d) buf @ take (nat n) src @ drop (nat n) dst, n)
     }"

text \<open>\<open>bytes.Index(s, sep)\<close> of the Go standard library: the index of the first instance
  of \<open>sep\<close> in \<open>s\<close>, or -1 if \<open>sep\<close> is not present in \<open>s\<close>.\<close>

fun Index :: "byte list \<Rightarrow> byte list \<Rightarrow> int" where
  "Index [] sep = (if sep = [] then 0 else - 1)"
| "Index (c # s) sep =
     (if prefix sep (c # s) then 0
      else (let r = Index s sep in if r < 0 then - 1 else r + 1))"

text \<open>\<open>bytes.IndexByte(b, c)\<close>: the index of the first instance of \<open>c\<close> in \<open>b\<close>, or -1.\<close>

fun IndexByte :: "byte list \<Rightarrow> byte \<Rightarrow> int" where
  "IndexByte [] c = - 1"
| "IndexByte (b # s) c =
     (if b = c then 0
      else (let r = IndexByte s c in if r < 0 then - 1 else r + 1))"

section \<open>The redaction of one header: \<open>cleanAuth\<close>\<close>

text \<open>
  The masking loop of \<open>cleanAuth\<close>:
  \<^verbatim>\<open>for j := 0; i < len(buf) && j < 4; j++ {
        if buf[i] == '\n' { break }
        buf[i] = 'X'
        i++
  }\<close>
  It returns the buffer and \<open>i\<close> as they are when the loop is left.
\<close>

function mask_loop :: "byte list \<Rightarrow> int \<Rightarrow> int \<Rightarrow> (byte list \<times> int) option" where
  "mask_loop buf i j =
     (if i < len buf \<and> j < 4 then
        (case index_get buf i of
           None \<Rightarrow> None
         | Some c \<Rightarrow>
             if c = LF then Some (buf, i)
             else (case index_set buf i MaskX of
                     None \<Rightarrow> None
                   | Some buf' \<Rightarrow> mask_loop buf' (i + 1) (j + 1)))
      else Some (buf, i))"
  by pat_completeness auto
termination
  by (relation "measure (\<lambda>(buf, i, j). nat (4 - j))") auto

declare mask_loop.simps [simp del]

text \<open>
  \<^verbatim>\<open>func cleanAuth(buf, authBuf []byte) []byte\<close>, statement by statement. The function
  writes into \<open>buf\<close>'s array and returns a slice of it; the model returns the bytes of
  the returned slice.
\<close>

definition cleanAuth :: "byte list \<Rightarrow> byte list \<Rightarrow> byte list option" where
  "cleanAuth buf authBuf =
     (let n = (if len buf < 4096 then len buf else 4096) in
      do {
        window \<leftarrow> slice_to buf n;
        let i = Index window authBuf;
        if i < 0 then Some buf
        else do {
          let i = i + len authBuf;
          (buf, i) \<leftarrow> mask_loop buf i 0;
          tail \<leftarrow> slice_from buf i;
          let j = IndexByte tail LF;
          if j < 0 then slice_to buf i
          else do {
            (buf, n) \<leftarrow> copy_within buf i (i + j);
            slice_to buf (i + n)
          }
        }
      })"

section \<open>Options and the transport\<close>

text \<open>
  \<open>DumpFlags\<close> is a Go \<open>int\<close>; only bitwise AND and OR of its five low bits are ever
  computed, so the width of \<open>int\<close> plays no role and the flags are HOL integers.
\<close>

type_synonym DumpFlags = int

definition DumpHeaders :: DumpFlags where
  "DumpHeaders = push_bit 0 1"

definition DumpBodies :: DumpFlags where
  "DumpBodies = push_bit 1 1"

definition DumpRequests :: DumpFlags where
  "DumpRequests = push_bit 2 1"

definition DumpResponses :: DumpFlags where
  "DumpResponses = push_bit 3 1"

definition DumpAuth :: DumpFlags where
  "DumpAuth = push_bit 4 1"

definition SeparatorReq :: "byte list" where
  "SeparatorReq = replicate 60 (CHR ''>'')"

definition SeparatorResp :: "byte list" where
  "SeparatorResp = replicate 60 (CHR ''<'')"

text \<open>
  \<open>Options\<close>: the field \<open>Auth\<close> is a slice of byte slices, \<open>None\<close> when it is the nil
  slice. The field \<open>Logf\<close> is the logging sink; its calls are recorded as events of
  the trace below, so the record does not carry it.
\<close>

record Options =
  Flags :: DumpFlags
  Auth :: "byte list list option"

text \<open>The package variable \<open>Auth\<close>: the headers redacted by default.\<close>

definition DefaultAuth :: "byte list list" where
  "DefaultAuth = [''Authorization: '', ''X-Auth-Token: '']"

definition DefaultOptions :: Options where
  "DefaultOptions = \<lparr>Flags = DumpHeaders, Auth = Some DefaultAuth\<rparr>"

definition DumpBodyOptions :: Options where
  "DumpBodyOptions = \<lparr>Flags = DumpBodies, Auth = Some DefaultAuth\<rparr>"

text \<open>
  \<open>Transport\<close> embeds an \<open>*http.Transport\<close>, of which only the method \<open>RoundTrip\<close> is
  used: the field \<open>Transport\<close> is that method, returning the pair \<open>(resp, err)\<close> with
  \<open>err = None\<close> for the nil error. Requests, responses and errors are opaque values
  (\<open>'req\<close> and \<open>'resp\<close> are the pointers, nil included).
\<close>

record ('req, 'resp, 'err) Transport =
  Transport :: "'req \<Rightarrow> 'resp \<times> 'err option"
  opt :: Options

text \<open>\<open>New(opt, transport)\<close>; a nil \<open>opt\<close> is \<open>None\<close>. (Setting \<open>Logf\<close> to
  \<open>log.Printf\<close> when it is nil has no counterpart: the sink is the trace.)\<close>

definition New :: "Options option \<Rightarrow> ('req \<Rightarrow> 'resp \<times> 'err option) \<Rightarrow> ('req, 'resp, 'err) Transport" where
  "New opts transport =
     (let t = \<lparr>Transport = transport,
                opt = (case opts of None \<Rightarrow> DefaultOptions | Some given \<Rightarrow> given)\<rparr>
      in if Auth (opt t) = None
         then t\<lparr>opt := (opt t)\<lparr>Auth := Some DefaultAuth\<rparr>\<rparr>
         else t)"

text \<open>The \<open>for ... range t.opt.Auth\<close> loop of \<open>cleanAuths\<close>; a nil slice has no elements.\<close>

fun cleanAuths_range :: "byte list list \<Rightarrow> byte list \<Rightarrow> byte list option" where
  "cleanAuths_range [] buf = Some buf"
| "cleanAuths_range (authBuf # rest) buf =
     do {
       buf \<leftarrow> cleanAuth buf authBuf;
       cleanAuths_range rest buf
     }"

definition cleanAuths :: "('req, 'resp, 'err) Transport \<Rightarrow> byte list \<Rightarrow> byte list option" where
  "cleanAuths t buf =
     cleanAuths_range (case Auth (opt t) of None \<Rightarrow> [] | Some auths \<Rightarrow> auths) buf"

section \<open>The round trip\<close>

text \<open>
  The functions \<open>httputil.DumpRequestOut\<close> and \<open>httputil.DumpResponse\<close> of the standard
  library are parameters; each returns the pair \<open>(buf, err)\<close>.
\<close>

record ('req, 'resp, 'err) httputil =
  DumpRequestOut :: "'req \<Rightarrow> bool \<Rightarrow> byte list \<times> 'err option"
  DumpResponse :: "'resp \<Rightarrow> bool \<Rightarrow> byte list \<times> 'err option"

text \<open>
  What a round trip does to the outside is a trace of events: each call of
  \<open>t.opt.Logf\<close> with its format and arguments (a string for \<open>%s\<close>, the request
  pointer for \<open>%p\<close>, an error for \<open>%v\<close>), each call of a dump function with its
  \<open>body\<close> argument, and the call of the wrapped transport.
\<close>

datatype ('req, 'err) arg = Str "byte list" | Ptr 'req | Err 'err

datatype ('req, 'resp, 'err) event =
    Logf string "('req, 'err) arg list"
  | Call_DumpRequestOut 'req bool
  | Call_RoundTrip 'req
  | Call_DumpResponse 'resp bool

text \<open>
  \<open>RoundTrip\<close>, statement by statement: the result is the returned pair and the trace,
  or \<open>None\<close> if \<open>cleanAuths\<close> panics.
\<close>

definition RoundTrip ::
  "('req, 'resp, 'err) httputil \<Rightarrow> ('req, 'resp, 'err) Transport \<Rightarrow> 'req \<Rightarrow>
     (('resp \<times> 'err option) \<times> ('req, 'resp, 'err) event list) option" where
  "RoundTrip h t req =
     do {
       tr \<leftarrow>
         (if Flags (opt t) AND (DumpHeaders OR DumpBodies OR DumpAuth OR DumpRequests OR DumpResponses) \<noteq> 0
          then do {
            let tr = [Logf ''%s'' [Str SeparatorReq],
                      Logf ''%s (req %p)'' [Str ''HTTP REQUEST'', Ptr req]];
            let body = (Flags (opt t) AND (DumpBodies OR DumpRequests) \<noteq> 0);
            let (buf, derr) = DumpRequestOut h req body;
            let tr = tr @ [Call_DumpRequestOut req body];
            tr \<leftarrow>
              (case derr of
                 Some e \<Rightarrow> Some (tr @ [Logf ''Dump request failed: %v'' [Err e]])
               | None \<Rightarrow> do {
                   buf \<leftarrow> (if Flags (opt t) AND DumpAuth = 0 then cleanAuths t buf else Some buf);
                   Some (tr @ [Logf ''%s'' [Str buf]])
                 });
            Some (tr @ [Logf ''%s'' [Str SeparatorReq]])
          }
          else Some []);
       let (resp, err) = Transport t req;
       let tr = tr @ [Call_RoundTrip req];
       let tr =
         (if Flags (opt t) AND (DumpHeaders OR DumpBodies OR DumpAuth OR DumpRequests OR DumpResponses) \<noteq> 0
          then
            (let tr = tr @ [Logf ''%s'' [Str SeparatorResp],
                            Logf ''%s (req %p)'' [Str ''HTTP RESPONSE'', Ptr req]];
                 tr = (case err of
                         Some e \<Rightarrow> tr @ [Logf ''HTTP request failed: %v'' [Err e]]
                       | None \<Rightarrow>
                           (let body = (Flags (opt t) AND (DumpBodies OR DumpResponses) \<noteq> 0);
                                (buf, derr) = DumpResponse h resp body;
                                tr = tr @ [Call_DumpResponse resp body]
                            in case derr of
                                 Some e \<Rightarrow> tr @ [Logf ''Dump response failed: %v'' [Err e]]
                               | None \<Rightarrow> tr @ [Logf ''%s'' [Str buf]]))
             in tr @ [Logf ''%s'' [Str SeparatorResp]])
          else tr);
       Some ((resp, err), tr)
     }"

text \<open>The calls of the logging function in a trace, in order: format and arguments.\<close>

fun log_lines :: "('req, 'resp, 'err) event list \<Rightarrow> (string \<times> ('req, 'err) arg list) list" where
  "log_lines [] = []"
| "log_lines (Logf fmt args # tr) = (fmt, args) # log_lines tr"
| "log_lines (_ # tr) = log_lines tr"

subsection \<open>Concrete collaborators for the examples\<close>

text \<open>
  Requests and responses are numbered, errors are messages. The dumps are those of a
  \<open>PUT\<close> request carrying an \<open>Authorization\<close> header and of a response carrying an
  \<open>X-Auth-Token\<close> header, with the line ends \<open>CR LF\<close> of the wire format.
\<close>

definition example_request_dump :: "bool \<Rightarrow> byte list" where
  "example_request_dump body =
     ''PUT / HTTP/1.1'' @ [CR, LF] @ ''Authorization: POTATO'' @ [CR, LF, CR, LF] @
     (if body then ''Request text'' else [])"

definition example_response_dump :: "bool \<Rightarrow> byte list" where
  "example_response_dump body =
     ''HTTP/1.1 200 OK'' @ [CR, LF] @ ''X-Auth-Token: SECRET'' @ [CR, LF, CR, LF] @
     (if body then ''Response body'' else [])"

definition example_httputil :: "(nat, nat, string) httputil" where
  "example_httputil =
     \<lparr>DumpRequestOut = (\<lambda>req body. (example_request_dump body, None)),
      DumpResponse = (\<lambda>resp body. (example_response_dump body, None))\<rparr>"

definition ok_transport :: "nat \<Rightarrow> nat \<times> string option" where
  "ok_transport req = (200, None)"

definition failing_transport :: "nat \<Rightarrow> nat \<times> string option" where
  "failing_transport req = (0, Some ''connection refused'')"

section \<open>What the library functions compute\<close>

lemma Index_ge: "- 1 \<le> Index s sep"
  by (induction s) (auto simp: Let_def)

lemma Index_neg_iff: "Index s sep < 0 \<longleftrightarrow> \<not> sublist sep s"
proof (induction s)
  case Nil
  then show ?case by simp
next
  case (Cons c s)
  have "0 \<le> Index s sep + 1" using Index_ge [of s sep] by simp
  with Cons show ?case
    by (auto simp: Let_def sublist_Cons_right)
qed

lemma Index_bound: "0 \<le> Index s sep \<Longrightarrow> Index s sep + len sep \<le> len s"
proof (induction s)
  case Nil
  then show ?case by (simp split: if_splits)
next
  case (Cons c s)
  then show ?case
    by (auto simp: Let_def dest: prefix_length_le split: if_splits)
qed

lemma Index_first:
  "\<not> sublist sep (butlast (ps @ sep)) \<Longrightarrow> Index (ps @ sep @ ss) sep = len ps"
proof (induction ps)
  case Nil
  then show ?case by (cases sep) auto
next
  case (Cons p ps)
  have ne: "sep \<noteq> []" using Cons.prems by auto
  have np: "\<not> prefix sep (p # ps @ sep @ ss)"
  proof
    assume "prefix sep (p # ps @ sep @ ss)"
    then have "sep = take (length sep) (p # ps @ sep @ ss)"
      by (metis append_eq_conv_conj prefix_def)
    also have "\<dots> = take (length sep) (butlast ((p # ps) @ sep))"
      using ne by (simp add: butlast_append take_Cons' take_butlast)
    finally have "sublist sep (butlast ((p # ps) @ sep))"
      by (metis sublist_take)
    with Cons.prems show False by simp
  qed
  have "\<not> sublist sep (butlast (ps @ sep))"
  proof
    assume "sublist sep (butlast (ps @ sep))"
    then have "sublist sep (p # butlast (ps @ sep))"
      by (simp add: sublist_Cons_right)
    with Cons.prems ne show False by (simp add: butlast_append)
  qed
  then have "Index (ps @ sep @ ss) sep = len ps" by (rule Cons.IH)
  with np show ?case by (simp add: Let_def)
qed

lemma IndexByte_eq:
  "IndexByte s c = (if c \<in> set s then len (takeWhile (\<lambda>b. b \<noteq> c) s) else - 1)"
  by (induction s) (auto simp: Let_def)

lemma mask_loop_eq:
  "0 \<le> i \<Longrightarrow> i \<le> len buf \<Longrightarrow>
   mask_loop buf i j =
     Some (let k = min (nat (4 - j)) (length (takeWhile (\<lambda>b. b \<noteq> LF) (drop (nat i) buf)))
           in (take (nat i) buf @ replicate k MaskX @ drop (nat i + k) buf, i + int k))"
proof (induction buf i j rule: mask_loop.induct)
  case (1 buf i j)
  show ?case
  proof (cases "i < len buf \<and> j < 4")
    case False
    then have "i = len buf \<or> 4 \<le> j" using "1.prems" by auto
    then show ?thesis
      using "1.prems" by (subst mask_loop.simps) (auto simp: Let_def)
  next
    case True
    then have lt: "nat i < length buf" using "1.prems" by auto
    have d: "drop (nat i) buf = buf ! nat i # drop (Suc (nat i)) buf"
      using lt by (simp add: Cons_nth_drop_Suc)
    show ?thesis
    proof (cases "buf ! nat i = LF")
      case yes: True
      have tw: "takeWhile (\<lambda>b. b \<noteq> LF) (drop (nat i) buf) = []"
        by (subst d) (simp add: yes)
      show ?thesis
        using True "1.prems" yes
        by (subst mask_loop.simps) (simp add: index_get_def Let_def tw)
    next
      case no: False
      have ih: "mask_loop (buf[nat i := MaskX]) (i + 1) (j + 1) =
        Some (let k = min (nat (4 - (j + 1)))
                       (length (takeWhile (\<lambda>b. b \<noteq> LF) (drop (nat (i + 1)) (buf[nat i := MaskX]))))
           in (take (nat (i + 1)) (buf[nat i := MaskX]) @ replicate k MaskX @
                 drop (nat (i + 1) + k) (buf[nat i := MaskX]), i + 1 + int k))"
        using True "1.prems" no
        by (intro "1.IH") (auto simp: index_get_def index_set_def)
      have s: "nat (i + 1) = Suc (nat i)" using "1.prems" by simp
      have j4: "nat (4 - j) = Suc (nat (4 - (j + 1)))" using True by linarith
      have t: "take (Suc (nat i)) (buf[nat i := MaskX]) = take (nat i) buf @ [MaskX]"
        using lt by (simp add: take_Suc_conv_app_nth)
      have step: "mask_loop buf i j = mask_loop (buf[nat i := MaskX]) (i + 1) (j + 1)"
        using True "1.prems" no
        by (subst mask_loop.simps) (simp add: index_get_def index_set_def)
      have dr: "drop (Suc (nat i)) (buf[nat i := MaskX]) = drop (Suc (nat i)) buf"
        by simp
      have tw: "takeWhile (\<lambda>b. b \<noteq> LF) (drop (nat i) buf) =
                  buf ! nat i # takeWhile (\<lambda>b. b \<noteq> LF) (drop (Suc (nat i)) buf)"
        by (subst d) (simp add: no)
      define m where "m = min (nat (4 - (j + 1)))
                       (length (takeWhile (\<lambda>b. b \<noteq> LF) (drop (Suc (nat i)) buf)))"
      have k: "min (nat (4 - j)) (length (takeWhile (\<lambda>b. b \<noteq> LF) (drop (nat i) buf))) = Suc m"
        unfolding m_def tw j4 by simp
      show ?thesis
        unfolding step ih k Let_def s t dr
        unfolding m_def [symmetric]
        by (simp add: drop_update_cancel)
    qed
  qed
qed

section \<open>A closed form of \<open>cleanAuth\<close>\<close>

lemma window_slice:
  "slice_to buf (if len buf < 4096 then len buf else 4096) = Some (take 4096 buf)"
  by (simp add: slice_to_def)

lemma cleanAuth_not_found:
  "Index (take 4096 buf) authBuf < 0 \<Longrightarrow> cleanAuth buf authBuf = Some buf"
  unfolding cleanAuth_def Let_def window_slice by simp

lemma dropWhile_eq_drop_takeWhile:
  "dropWhile P xs = drop (length (takeWhile P xs)) xs"
  by (induction xs) auto

lemma cleanAuth_found:
  assumes found: "0 \<le> Index (take 4096 buf) authBuf"
  shows "cleanAuth buf authBuf =
     Some (let i = nat (Index (take 4096 buf) authBuf) + length authBuf;
               k = min 4 (length (takeWhile (\<lambda>b. b \<noteq> LF) (drop i buf)))
           in take i buf @ replicate k MaskX @ dropWhile (\<lambda>b. b \<noteq> LF) (drop (i + k) buf))"
proof -
  define p where "p = Index (take 4096 buf) authBuf"
  define i where "i = nat p + length authBuf"
  define k where "k = min 4 (length (takeWhile (\<lambda>b. b \<noteq> LF) (drop i buf)))"
  define buf' where "buf' = take i buf @ replicate k MaskX @ drop (i + k) buf"
  define tail where "tail = drop (i + k) buf"
  have p0: "0 \<le> p" using found by (simp add: p_def)
  have "p + len authBuf \<le> len (take 4096 buf)"
    unfolding p_def using found by (rule Index_bound)
  then have ile: "i \<le> length buf" using p0 by (simp add: i_def)
  have ii: "p + len authBuf = int i" using p0 by (simp add: i_def)
  have "k \<le> length (takeWhile (\<lambda>b. b \<noteq> LF) (drop i buf))" by (simp add: k_def)
  also have "\<dots> \<le> length (drop i buf)" by (rule length_takeWhile_le)
  finally have ik: "i + k \<le> length buf" using ile by simp
  have ml: "mask_loop buf (int i) 0 = Some (buf', int i + int k)"
    using ile by (subst mask_loop_eq) (simp_all add: Let_def buf'_def k_def)
  have lb: "length buf' = length buf" using ik by (simp add: buf'_def)
  have db: "drop (i + k) buf' = tail" using ik ile by (simp add: buf'_def tail_def)
  have tb: "take (i + k) buf' = take i buf @ replicate k MaskX"
    using ik ile by (simp add: buf'_def)
  have sf: "slice_from buf' (int i + int k) = Some tail"
    using ik lb db by (simp add: slice_from_def nat_add_distrib)
  have goal: "(let i = nat (Index (take 4096 buf) authBuf) + length authBuf;
               k = min 4 (length (takeWhile (\<lambda>b. b \<noteq> LF) (drop i buf)))
           in take i buf @ replicate k MaskX @ dropWhile (\<lambda>b. b \<noteq> LF) (drop (i + k) buf))
      = take i buf @ replicate k MaskX @ dropWhile (\<lambda>b. b \<noteq> LF) tail"
    by (simp add: Let_def i_def p_def k_def tail_def)
  have start: "cleanAuth buf authBuf =
       (if IndexByte tail LF < 0 then slice_to buf' (int i + int k)
        else do {
            (buf, n) \<leftarrow> copy_within buf' (int i + int k) (int i + int k + IndexByte tail LF);
            slice_to buf (int i + int k + n)
          })"
    unfolding cleanAuth_def Let_def window_slice
    using p0 by (simp add: p_def [symmetric] ii ml sf)
  show ?thesis
  proof (cases "LF \<in> set tail")
    case False
    then have dw: "dropWhile (\<lambda>b. b \<noteq> LF) tail = []" by auto
    have "slice_to buf' (int i + int k) = Some (take (i + k) buf')"
      using ik lb by (simp add: slice_to_def nat_add_distrib)
    then show ?thesis
      unfolding goal start dw using False by (simp add: IndexByte_eq tb)
  next
    case True
    define j where "j = length (takeWhile (\<lambda>b. b \<noteq> LF) tail)"
    define src where "src = dropWhile (\<lambda>b. b \<noteq> LF) tail"
    have ib: "IndexByte tail LF = int j" using True by (simp add: IndexByte_eq j_def)
    have jl: "j \<le> length tail" unfolding j_def by (rule length_takeWhile_le)
    have lt: "length tail = length buf - (i + k)" by (simp add: tail_def)
    have "src = drop j tail"
      unfolding src_def j_def by (rule dropWhile_eq_drop_takeWhile)
    then have src: "drop (i + k + j) buf' = src"
      unfolding db [symmetric] by (simp add: add.commute)
    have ls: "length src \<le> length tail"
      unfolding src_def by (rule length_dropWhile_le)
    have cw: "copy_within buf' (int i + int k) (int i + int k + int j) =
        Some (take (i + k) buf' @ src @ drop (length src) tail, len src)"
      using ik lb jl lt ls
      by (simp add: copy_within_def slice_from_def nat_add_distrib db src min_def)
    have "slice_to (take (i + k) buf' @ src @ drop (length src) tail) (int i + int k + len src)
        = Some (take (i + k) buf' @ src)"
      using ik lb by (simp add: slice_to_def nat_add_distrib)
    then show ?thesis
      unfolding goal start ib using cw by (simp add: tb src_def)
  qed
qed

section \<open>Values, totality and the search window\<close>

lemma cleanAuth_Some: "\<exists>out. cleanAuth buf authBuf = Some out"
proof (cases "Index (take 4096 buf) authBuf < 0")
  case True
  then show ?thesis by (simp add: cleanAuth_not_found)
next
  case False
  then have "0 \<le> Index (take 4096 buf) authBuf" by simp
  then show ?thesis by (simp add: cleanAuth_found)
qed

lemma cleanAuth_length_le:
  assumes "cleanAuth buf authBuf = Some out"
  shows "length out \<le> length buf"
proof (cases "Index (take 4096 buf) authBuf < 0")
  case True
  with assms show ?thesis by (simp add: cleanAuth_not_found)
next
  case False
  then have f: "0 \<le> Index (take 4096 buf) authBuf" by simp
  define i where "i = nat (Index (take 4096 buf) authBuf) + length authBuf"
  define k where "k = min 4 (length (takeWhile (\<lambda>b. b \<noteq> LF) (drop i buf)))"
  have out: "out = take i buf @ replicate k MaskX @ dropWhile (\<lambda>b. b \<noteq> LF) (drop (i + k) buf)"
    using assms cleanAuth_found [OF f] by (simp add: Let_def i_def k_def)
  have "k \<le> length (takeWhile (\<lambda>b. b \<noteq> LF) (drop i buf))" by (simp add: k_def)
  also have "\<dots> \<le> length (drop i buf)" by (rule length_takeWhile_le)
  finally have k: "k \<le> length buf - i" by simp
  have "length (dropWhile (\<lambda>b. b \<noteq> LF) (drop (i + k) buf)) \<le> length (drop (i + k) buf)"
    by (rule length_dropWhile_le)
  then have "length out \<le> min (length buf) i + k + (length buf - (i + k))"
    by (simp add: out)
  with k show ?thesis by (simp add: min_def split: if_splits)
qed

lemma Index_window:
  assumes "length pre + length authBuf \<le> 4096"
    and "\<not> sublist authBuf (butlast (pre @ authBuf))"
  shows "Index (take 4096 (pre @ authBuf @ rest)) authBuf = len pre"
proof -
  have "take 4096 (pre @ authBuf @ rest) =
          pre @ authBuf @ take (4096 - (length pre + length authBuf)) rest"
    using assms(1) by simp
  moreover have "Index (pre @ authBuf @ take (4096 - (length pre + length authBuf)) rest) authBuf
          = len pre"
    using assms(2) by (rule Index_first)
  ultimately show ?thesis by (simp only:)
qed

lemma takeWhile_value:
  "LF \<notin> set val \<Longrightarrow> rest = [] \<or> hd rest = LF \<Longrightarrow>
   takeWhile (\<lambda>b. b \<noteq> LF) (val @ rest) = val"
  by (induction val) (cases rest; auto)+

lemma dropWhile_value:
  "LF \<notin> set val \<Longrightarrow> rest = [] \<or> hd rest = LF \<Longrightarrow>
   dropWhile (\<lambda>b. b \<noteq> LF) (val @ rest) = rest"
  by (induction val) (cases rest; auto)+

lemma cleanAuth_value:
  assumes w: "length pre + length authBuf \<le> 4096"
    and first: "\<not> sublist authBuf (butlast (pre @ authBuf))"
    and nl: "LF \<notin> set val"
    and r: "rest = [] \<or> hd rest = LF"
  shows "cleanAuth (pre @ authBuf @ val @ rest) authBuf =
           Some (pre @ authBuf @ replicate (min 4 (length val)) MaskX @ rest)"
proof -
  define buf where "buf = pre @ authBuf @ val @ rest"
  define i where "i = length pre + length authBuf"
  define k where "k = min 4 (length val)"
  have ix: "Index (take 4096 buf) authBuf = len pre"
    unfolding buf_def using w first by (rule Index_window)
  have dr: "drop i buf = val @ rest" by (simp add: buf_def i_def)
  have tk: "take i buf = pre @ authBuf" by (simp add: buf_def i_def)
  have tw: "takeWhile (\<lambda>b. b \<noteq> LF) (drop i buf) = val"
    unfolding dr using nl r by (rule takeWhile_value)
  have "drop (i + k) buf = drop k (drop i buf)" by (simp add: add.commute)
  then have dk: "drop (i + k) buf = drop k val @ rest"
    by (simp add: dr k_def)
  have "LF \<notin> set (drop k val)" using nl by (meson in_set_dropD)
  then have dw: "dropWhile (\<lambda>b. b \<noteq> LF) (drop (i + k) buf) = rest"
    unfolding dk using r by (rule dropWhile_value)
  have "cleanAuth buf authBuf = Some (take i buf @ replicate k MaskX @
          dropWhile (\<lambda>b. b \<noteq> LF) (drop (i + k) buf))"
    by (subst cleanAuth_found) (simp_all add: ix Let_def i_def [symmetric] tw k_def [symmetric])
  then show ?thesis
    unfolding tk dw by (simp add: buf_def k_def)
qed

lemma not_sublist_replicate:
  "x \<in> set sep \<Longrightarrow> x \<noteq> a \<Longrightarrow> \<not> sublist sep (replicate n a)"
  using set_mono_sublist by fastforce

lemma window_take: "take (min 4096 (length buf)) buf = take 4096 buf"
  by (simp add: min_def)

section \<open>The claims about \<open>cleanAuth\<close>\<close>

text \<open>
  Claim C2, as amended. Let the first occurrence of the prefix \<open>authBuf\<close> in the buffer
  begin at offset \<open>length pre\<close> (no occurrence begins earlier: the prefix is no sublist
  of \<open>pre @ authBuf\<close> without its last byte) and end within the first 4096 bytes, and
  let it be followed by a value \<open>val\<close> without line feed and then a line feed. If the value has at
  most 4 bytes, \<open>cleanAuth\<close> returns the buffer with every byte of the value replaced
  by \<open>X\<close> and everything else unchanged. If it has more than 4 bytes, the output has
  exactly 4 bytes \<open>X\<close> right after the prefix, followed directly by the value's line
  feed and what followed it, and is shorter than the input by \<open>length val - 4\<close>.
\<close>

theorem cleanAuth_masks_value:
  assumes "length pre + length authBuf \<le> 4096"
    and "\<not> sublist authBuf (butlast (pre @ authBuf))"
    and "LF \<notin> set val"
  shows "(length val \<le> 4 \<longrightarrow>
            cleanAuth (pre @ authBuf @ val @ LF # rest) authBuf =
              Some (pre @ authBuf @ replicate (length val) MaskX @ LF # rest)) \<and>
         (4 < length val \<longrightarrow>
            cleanAuth (pre @ authBuf @ val @ LF # rest) authBuf =
              Some (pre @ authBuf @ replicate 4 MaskX @ LF # rest) \<and>
            length (pre @ authBuf @ replicate 4 MaskX @ LF # rest) =
              length (pre @ authBuf @ val @ LF # rest) - (length val - 4))"
  using cleanAuth_value [OF assms, of "LF # rest"] by (auto simp: min_def)

text \<open>The theorem of claim C2 at two inputs of the repository's test table: a long value
  after another header line, and a value of one byte.\<close>

theorem cleanAuth_masks_value_witness:
  "cleanAuth ''Sausage: 1\<newline>Authorization: AAAAAAAAA\<newline>Potato: Help\<newline>'' ''Authorization: '' =
     Some ''Sausage: 1\<newline>Authorization: XXXX\<newline>Potato: Help\<newline>'' \<and>
   cleanAuth ''Authorization: A\<newline>'' ''Authorization: '' = Some ''Authorization: X\<newline>''"
proof -
  have a: "\<not> sublist ''Authorization: '' (butlast (''Sausage: 1\<newline>'' @ ''Authorization: ''))"
    by code_simp
  have b: "\<not> sublist ''Authorization: '' (butlast ([] @ ''Authorization: ''))"
    by code_simp
  show ?thesis
    using cleanAuth_masks_value [of "''Sausage: 1\<newline>''" "''Authorization: ''" "''AAAAAAAAA''" "''Potato: Help\<newline>''", OF _ a]
      cleanAuth_masks_value [of "[]" "''Authorization: ''" "''A''" "[]", OF _ b]
    by (simp add: eval_nat_numeral)
qed

text \<open>
  Claim C2 as stated speaks of every buffer that contains the prefix. A buffer whose only
  occurrence of \<open>Authorization: \<close> begins at offset 4096, with a value of 6 bytes and a
  line feed, comes back unchanged: no \<open>X\<close> is written and the length does not shrink.
\<close>

theorem cleanAuth_beyond_window_counterexample:
  "cleanAuth (replicate 4096 (CHR ''a'') @ ''Authorization: SECRET\<newline>'') ''Authorization: '' =
     Some (replicate 4096 (CHR ''a'') @ ''Authorization: SECRET\<newline>'') \<and>
   cleanAuth (replicate 4096 (CHR ''a'') @ ''Authorization: SECRET\<newline>'') ''Authorization: '' \<noteq>
     Some (replicate 4096 (CHR ''a'') @ ''Authorization: XXXX\<newline>'')"
proof -
  have "\<not> sublist ''Authorization: '' (replicate 4096 (CHR ''a''))"
    by (rule not_sublist_replicate [of "CHR ''A''"]) simp_all
  then have "Index (take 4096 (replicate 4096 (CHR ''a'') @ ''Authorization: SECRET\<newline>''))
               ''Authorization: '' < 0"
    by (simp add: Index_neg_iff)
  then have "cleanAuth (replicate 4096 (CHR ''a'') @ ''Authorization: SECRET\<newline>'') ''Authorization: '' =
     Some (replicate 4096 (CHR ''a'') @ ''Authorization: SECRET\<newline>'')"
    by (rule cleanAuth_not_found)
  then show ?thesis by simp
qed

text \<open>
  Claim C3. If the prefix does not occur within the first \<open>min 4096 (length buf)\<close> bytes
  of the buffer, \<open>cleanAuth\<close> returns the buffer unchanged; in particular it does so for
  every buffer that does not contain the prefix at all.
\<close>

theorem cleanAuth_identity:
  "(\<not> sublist authBuf (take (min 4096 (length buf)) buf) \<longrightarrow> cleanAuth buf authBuf = Some buf) \<and>
   (\<not> sublist authBuf buf \<longrightarrow> cleanAuth buf authBuf = Some buf)"
proof -
  have 1: "cleanAuth buf authBuf = Some buf" if "\<not> sublist authBuf (take 4096 buf)"
    using that by (intro cleanAuth_not_found) (simp add: Index_neg_iff)
  have "\<not> sublist authBuf (take 4096 buf)" if "\<not> sublist authBuf buf"
    using that sublist_take sublist_order.order_trans by blast
  with 1 show ?thesis by (simp add: window_take)
qed

text \<open>The theorem of claim C3 at a buffer whose prefix lies beyond the window, and at a
  buffer without the prefix.\<close>

theorem cleanAuth_identity_witness:
  "cleanAuth (replicate 4096 (CHR ''b'') @ ''X-Auth-Token: SECRET\<newline>'') ''X-Auth-Token: '' =
     Some (replicate 4096 (CHR ''b'') @ ''X-Auth-Token: SECRET\<newline>'') \<and>
   cleanAuth ''floo'' ''Authorization: '' = Some ''floo''"
proof -
  have "\<not> sublist ''X-Auth-Token: '' (replicate 4096 (CHR ''b''))"
    by (rule not_sublist_replicate [of "CHR ''X''"]) simp_all
  then have a: "\<not> sublist ''X-Auth-Token: ''
      (take (min 4096 (length (replicate 4096 (CHR ''b'') @ ''X-Auth-Token: SECRET\<newline>'')))
         (replicate 4096 (CHR ''b'') @ ''X-Auth-Token: SECRET\<newline>''))"
    by simp
  have b: "\<not> sublist ''Authorization: '' ''floo''"
    by code_simp
  show ?thesis
    using cleanAuth_identity [of "''X-Auth-Token: ''" "replicate 4096 (CHR ''b'') @ ''X-Auth-Token: SECRET\<newline>''"]
      cleanAuth_identity [of "''Authorization: ''" "''floo''"] a b
    by blast
qed

text \<open>
  Claim C9. For every buffer and prefix \<open>cleanAuth\<close> returns a slice (no index or slice
  bound is ever out of range, every such access of the model being checked), and the
  slice is no longer than the buffer. When the value after the matched prefix (its first
  occurrence, ending within the first 4096 bytes) has fewer than 4 bytes and ends at the
  end of the buffer or at a line feed, the mask has exactly the length of the value, and
  what follows the value is untouched.
\<close>

theorem cleanAuth_total_in_bounds:
  "(\<exists>out. cleanAuth buf authBuf = Some out \<and> length out \<le> length buf) \<and>
   (\<forall>pre val rest.
      buf = pre @ authBuf @ val @ rest \<and>
      length pre + length authBuf \<le> 4096 \<and>
      \<not> sublist authBuf (butlast (pre @ authBuf)) \<and>
      LF \<notin> set val \<and> length val < 4 \<and> (rest = [] \<or> hd rest = LF) \<longrightarrow>
      cleanAuth buf authBuf = Some (pre @ authBuf @ replicate (length val) MaskX @ rest))"
proof (intro conjI allI impI)
  show "\<exists>out. cleanAuth buf authBuf = Some out \<and> length out \<le> length buf"
    using cleanAuth_Some [of buf authBuf] cleanAuth_length_le [of buf authBuf] by blast
next
  fix pre val rest
  assume h: "buf = pre @ authBuf @ val @ rest \<and>
      length pre + length authBuf \<le> 4096 \<and>
      \<not> sublist authBuf (butlast (pre @ authBuf)) \<and>
      LF \<notin> set val \<and> length val < 4 \<and> (rest = [] \<or> hd rest = LF)"
  then have "cleanAuth (pre @ authBuf @ val @ rest) authBuf =
           Some (pre @ authBuf @ replicate (min 4 (length val)) MaskX @ rest)"
    by (intro cleanAuth_value) simp_all
  with h show "cleanAuth buf authBuf = Some (pre @ authBuf @ replicate (length val) MaskX @ rest)"
    by (simp add: min_def)
qed

text \<open>The theorem of claim C9 at an empty value ending the buffer, an empty value ended by
  a line feed, and a value of two bytes ending the buffer.\<close>

theorem cleanAuth_total_in_bounds_witness:
  "cleanAuth ''Authorization: '' ''Authorization: '' = Some ''Authorization: '' \<and>
   cleanAuth ''Authorization: \<newline>'' ''Authorization: '' = Some ''Authorization: \<newline>'' \<and>
   cleanAuth ''Authorization: AB'' ''Authorization: '' = Some ''Authorization: XX''"
proof -
  have b: "\<not> sublist ''Authorization: '' (butlast ([] @ ''Authorization: ''))"
    by code_simp
  have 1: "cleanAuth ''Authorization: '' ''Authorization: '' = Some ''Authorization: ''"
    using cleanAuth_total_in_bounds [of "''Authorization: ''" "''Authorization: ''", THEN conjunct2,
        rule_format, of "[]" "[]" "[]"] b by simp
  have 2: "cleanAuth ''Authorization: \<newline>'' ''Authorization: '' = Some ''Authorization: \<newline>''"
    using cleanAuth_total_in_bounds [of "''Authorization: \<newline>''" "''Authorization: ''", THEN conjunct2,
        rule_format, of "[]" "[]" "[LF]"] b by simp
  have 3: "cleanAuth ''Authorization: AB'' ''Authorization: '' = Some ''Authorization: XX''"
    using cleanAuth_total_in_bounds [of "''Authorization: AB''" "''Authorization: ''", THEN conjunct2,
        rule_format, of "[]" "''AB''" "[]"] b by simp
  from 1 2 3 show ?thesis by simp
qed

text \<open>
  Claim C10. Only the line feed ends a value. When the line of the matched header (the
  first occurrence of the prefix, ending within the first 4096 bytes) ends with
  \<open>CR LF\<close>: a value of fewer than 4 bytes has its \<open>CR\<close> overwritten as well (one \<open>X\<close>
  more than the value has bytes); a value of 4 bytes or more has the \<open>CR\<close> deleted
  with the rest of the value; in both cases the redacted line ends with \<open>X\<close> and a bare
  line feed.
\<close>

theorem cleanAuth_crlf:
  assumes "length pre + length authBuf \<le> 4096"
    and "\<not> sublist authBuf (butlast (pre @ authBuf))"
    and "LF \<notin> set val"
  shows "(length val < 4 \<longrightarrow>
            cleanAuth (pre @ authBuf @ val @ CR # LF # rest) authBuf =
              Some (pre @ authBuf @ replicate (length val + 1) MaskX @ LF # rest)) \<and>
         (4 \<le> length val \<longrightarrow>
            cleanAuth (pre @ authBuf @ val @ CR # LF # rest) authBuf =
              Some (pre @ authBuf @ replicate 4 MaskX @ LF # rest)) \<and>
         (\<exists>k. 0 < k \<and> k \<le> 4 \<and>
            cleanAuth (pre @ authBuf @ val @ CR # LF # rest) authBuf =
              Some (pre @ authBuf @ replicate k MaskX @ LF # rest))"
proof -
  define m where "m = min 4 (length val + 1)"
  have "LF \<notin> set (val @ [CR])" using assms(3) by simp
  from cleanAuth_value [OF assms(1,2) this, of "LF # rest"]
  have eq: "cleanAuth (pre @ authBuf @ val @ CR # LF # rest) authBuf =
      Some (pre @ authBuf @ replicate m MaskX @ LF # rest)"
    unfolding m_def by simp
  have "0 < m \<and> m \<le> 4" by (simp add: m_def)
  then have 3: "\<exists>k. 0 < k \<and> k \<le> 4 \<and>
            cleanAuth (pre @ authBuf @ val @ CR # LF # rest) authBuf =
              Some (pre @ authBuf @ replicate k MaskX @ LF # rest)"
    using eq by blast
  have 1: "m = length val + 1" if "length val < 4" using that by (simp add: m_def)
  have 2: "m = 4" if "4 \<le> length val" using that by (simp add: m_def)
  show ?thesis
  proof (intro conjI impI)
    assume "length val < 4"
    then show "cleanAuth (pre @ authBuf @ val @ CR # LF # rest) authBuf =
              Some (pre @ authBuf @ replicate (length val + 1) MaskX @ LF # rest)"
      using eq 1 by (simp only:)
  next
    assume "4 \<le> length val"
    then show "cleanAuth (pre @ authBuf @ val @ CR # LF # rest) authBuf =
              Some (pre @ authBuf @ replicate 4 MaskX @ LF # rest)"
      using eq 2 by (simp only:)
  next
    show "\<exists>k. 0 < k \<and> k \<le> 4 \<and>
            cleanAuth (pre @ authBuf @ val @ CR # LF # rest) authBuf =
              Some (pre @ authBuf @ replicate k MaskX @ LF # rest)"
      by (rule 3)
  qed
qed

text \<open>The theorem of claim C10 at a value of two bytes and at a value of six bytes.\<close>

theorem cleanAuth_crlf_witness:
  "cleanAuth (''Authorization: AB'' @ [CR, LF] @ ''Next: 1'') ''Authorization: '' =
     Some (''Authorization: XXX'' @ [LF] @ ''Next: 1'') \<and>
   cleanAuth (''Authorization: POTATO'' @ [CR, LF] @ ''Next: 1'') ''Authorization: '' =
     Some (''Authorization: XXXX'' @ [LF] @ ''Next: 1'')"
proof -
  have b: "\<not> sublist ''Authorization: '' (butlast ([] @ ''Authorization: ''))"
    by code_simp
  show ?thesis
    using cleanAuth_crlf [of "[]" "''Authorization: ''" "''AB''" "''Next: 1''", OF _ b]
      cleanAuth_crlf [of "[]" "''Authorization: ''" "''POTATO''" "''Next: 1''", OF _ b]
    by (simp add: eval_nat_numeral)
qed

section \<open>Flags, \<open>cleanAuths\<close> and closed forms of \<open>RoundTrip\<close>\<close>

lemma flags_or_iff:
  fixes f :: int
  shows "f AND (a OR b) \<noteq> 0 \<longleftrightarrow> f AND a \<noteq> 0 \<or> f AND b \<noteq> 0"
  by (simp add: bit.conj_disj_distrib or_eq_0_iff)

lemma logging_mask_iff:
  "f AND (DumpHeaders OR DumpBodies OR DumpAuth OR DumpRequests OR DumpResponses) \<noteq> 0 \<longleftrightarrow>
     f AND DumpHeaders \<noteq> 0 \<or> f AND DumpBodies \<noteq> 0 \<or> f AND DumpRequests \<noteq> 0 \<or>
     f AND DumpResponses \<noteq> 0 \<or> f AND DumpAuth \<noteq> 0"
  by (auto simp: flags_or_iff)

lemma cleanAuths_range_Some: "\<exists>out. cleanAuths_range auths buf = Some out"
proof (induction auths arbitrary: buf)
  case Nil
  show ?case by simp
next
  case (Cons authBuf auths)
  obtain mid where "cleanAuth buf authBuf = Some mid"
    using cleanAuth_Some by blast
  with Cons [of mid] show ?case by simp
qed

lemma cleanAuths_Some: "\<exists>out. cleanAuths t buf = Some out"
  by (simp add: cleanAuths_def cleanAuths_range_Some)

lemma RoundTrip_disabled:
  assumes "Flags (opt t) AND (DumpHeaders OR DumpBodies OR DumpAuth OR DumpRequests OR DumpResponses) = 0"
  shows "RoundTrip h t req = Some (Transport t req, [Call_RoundTrip req])"
  using assms by (simp add: RoundTrip_def split: prod.splits)

lemma RoundTrip_enabled:
  assumes en: "Flags (opt t) AND (DumpHeaders OR DumpBodies OR DumpAuth OR DumpRequests OR DumpResponses) \<noteq> 0"
  shows "\<exists>dreq dresp.
     RoundTrip h t req =
       Some (Transport t req,
             [Logf ''%s'' [Str SeparatorReq],
              Logf ''%s (req %p)'' [Str ''HTTP REQUEST'', Ptr req],
              Call_DumpRequestOut req (Flags (opt t) AND (DumpBodies OR DumpRequests) \<noteq> 0)] @
             dreq @
             [Logf ''%s'' [Str SeparatorReq],
              Call_RoundTrip req,
              Logf ''%s'' [Str SeparatorResp],
              Logf ''%s (req %p)'' [Str ''HTTP RESPONSE'', Ptr req]] @
             dresp @
             [Logf ''%s'' [Str SeparatorResp]]) \<and>
     (case DumpRequestOut h req (Flags (opt t) AND (DumpBodies OR DumpRequests) \<noteq> 0) of
        (buf, Some e) \<Rightarrow> dreq = [Logf ''Dump request failed: %v'' [Err e]]
      | (buf, None) \<Rightarrow>
          if Flags (opt t) AND DumpAuth = 0
          then \<exists>out. cleanAuths t buf = Some out \<and> dreq = [Logf ''%s'' [Str out]]
          else dreq = [Logf ''%s'' [Str buf]]) \<and>
     (case Transport t req of
        (resp, Some e) \<Rightarrow> dresp = [Logf ''HTTP request failed: %v'' [Err e]]
      | (resp, None) \<Rightarrow>
          (case DumpResponse h resp (Flags (opt t) AND (DumpBodies OR DumpResponses) \<noteq> 0) of
             (buf, Some e) \<Rightarrow>
               dresp = [Call_DumpResponse resp (Flags (opt t) AND (DumpBodies OR DumpResponses) \<noteq> 0),
                        Logf ''Dump response failed: %v'' [Err e]]
           | (buf, None) \<Rightarrow>
               dresp = [Call_DumpResponse resp (Flags (opt t) AND (DumpBodies OR DumpResponses) \<noteq> 0),
                        Logf ''%s'' [Str buf]]))"
proof -
  obtain rbuf derr where dq: "DumpRequestOut h req (Flags (opt t) AND (DumpBodies OR DumpRequests) \<noteq> 0) = (rbuf, derr)"
    by (cases "DumpRequestOut h req (Flags (opt t) AND (DumpBodies OR DumpRequests) \<noteq> 0)")
  obtain out where ca: "cleanAuths t rbuf = Some out"
    using cleanAuths_Some by blast
  obtain resp err where tr: "Transport t req = (resp, err)"
    by (cases "Transport t req")
  obtain pbuf perr where dp: "DumpResponse h resp (Flags (opt t) AND (DumpBodies OR DumpResponses) \<noteq> 0) = (pbuf, perr)"
    by (cases "DumpResponse h resp (Flags (opt t) AND (DumpBodies OR DumpResponses) \<noteq> 0)")
  show ?thesis
    using en by (cases derr; cases err; cases perr) (simp_all add: RoundTrip_def dq ca tr dp)
qed

lemma cleanAuths_range_fold:
  "cleanAuths_range auths buf =
     fold (\<lambda>authBuf r. r \<bind> (\<lambda>b. cleanAuth b authBuf)) auths (Some buf)"
proof (induction auths arbitrary: buf)
  case Nil
  show ?case by simp
next
  case (Cons authBuf auths)
  obtain mid where "cleanAuth buf authBuf = Some mid"
    using cleanAuth_Some by blast
  with Cons [of mid] show ?case by simp
qed

lemma DumpHeaders_masks:
  "DumpHeaders AND (DumpHeaders OR DumpBodies OR DumpAuth OR DumpRequests OR DumpResponses) \<noteq> 0"
  "\<not> DumpHeaders AND (DumpBodies OR DumpRequests) \<noteq> 0"
  "\<not> DumpHeaders AND (DumpBodies OR DumpResponses) \<noteq> 0"
  "DumpHeaders AND DumpAuth = 0"
  by (simp_all add: DumpHeaders_def DumpBodies_def DumpAuth_def DumpRequests_def DumpResponses_def)

lemma RoundTrip_enabled_shape:
  assumes en: "Flags (opt t) AND (DumpHeaders OR DumpBodies OR DumpAuth OR DumpRequests OR DumpResponses) \<noteq> 0"
  shows "\<exists>dreq dresp.
     RoundTrip h t req =
       Some (Transport t req,
             [Logf ''%s'' [Str SeparatorReq],
              Logf ''%s (req %p)'' [Str ''HTTP REQUEST'', Ptr req],
              Call_DumpRequestOut req (Flags (opt t) AND (DumpBodies OR DumpRequests) \<noteq> 0)] @
             dreq @
             [Logf ''%s'' [Str SeparatorReq],
              Call_RoundTrip req,
              Logf ''%s'' [Str SeparatorResp],
              Logf ''%s (req %p)'' [Str ''HTTP RESPONSE'', Ptr req]] @
             dresp @
             [Logf ''%s'' [Str SeparatorResp]]) \<and>
     (\<exists>fmt args. dreq = [Logf fmt args]) \<and>
     (case snd (Transport t req) of
        Some e \<Rightarrow> dresp = [Logf ''HTTP request failed: %v'' [Err e]]
      | None \<Rightarrow> (\<exists>fmt args. dresp =
          [Call_DumpResponse (fst (Transport t req))
             (Flags (opt t) AND (DumpBodies OR DumpResponses) \<noteq> 0), Logf fmt args]))"
proof -
  from RoundTrip_enabled [OF en, of h req]
  obtain dreq dresp where rt: "RoundTrip h t req =
       Some (Transport t req,
             [Logf ''%s'' [Str SeparatorReq],
              Logf ''%s (req %p)'' [Str ''HTTP REQUEST'', Ptr req],
              Call_DumpRequestOut req (Flags (opt t) AND (DumpBodies OR DumpRequests) \<noteq> 0)] @
             dreq @
             [Logf ''%s'' [Str SeparatorReq],
              Call_RoundTrip req,
              Logf ''%s'' [Str SeparatorResp],
              Logf ''%s (req %p)'' [Str ''HTTP RESPONSE'', Ptr req]] @
             dresp @
             [Logf ''%s'' [Str SeparatorResp]])"
    and a: "case DumpRequestOut h req (Flags (opt t) AND (DumpBodies OR DumpRequests) \<noteq> 0) of
        (buf, Some e) \<Rightarrow> dreq = [Logf ''Dump request failed: %v'' [Err e]]
      | (buf, None) \<Rightarrow>
          if Flags (opt t) AND DumpAuth = 0
          then \<exists>out. cleanAuths t buf = Some out \<and> dreq = [Logf ''%s'' [Str out]]
          else dreq = [Logf ''%s'' [Str buf]]"
    and b: "case Transport t req of
        (resp, Some e) \<Rightarrow> dresp = [Logf ''HTTP request failed: %v'' [Err e]]
      | (resp, None) \<Rightarrow>
          (case DumpResponse h resp (Flags (opt t) AND (DumpBodies OR DumpResponses) \<noteq> 0) of
             (buf, Some e) \<Rightarrow>
               dresp = [Call_DumpResponse resp (Flags (opt t) AND (DumpBodies OR DumpResponses) \<noteq> 0),
                        Logf ''Dump response failed: %v'' [Err e]]
           | (buf, None) \<Rightarrow>
               dresp = [Call_DumpResponse resp (Flags (opt t) AND (DumpBodies OR DumpResponses) \<noteq> 0),
                        Logf ''%s'' [Str buf]])"
    by (elim exE conjE) (rule that; assumption)
  have a': "\<exists>fmt args. dreq = [Logf fmt args]"
    using a by (auto split: prod.splits option.splits if_splits)
  have b': "case snd (Transport t req) of
        Some e \<Rightarrow> dresp = [Logf ''HTTP request failed: %v'' [Err e]]
      | None \<Rightarrow> (\<exists>fmt args. dresp =
          [Call_DumpResponse (fst (Transport t req))
             (Flags (opt t) AND (DumpBodies OR DumpResponses) \<noteq> 0), Logf fmt args])"
    using b by (auto split: prod.splits option.splits)
  show ?thesis
    apply (rule exI [of _ dreq])
    apply (rule exI [of _ dresp])
    apply (rule conjI, rule rt, rule conjI, rule a', rule b')
    done
qed

lemma log_lines_append: "log_lines (xs @ ys) = log_lines xs @ log_lines ys"
  by (induction xs rule: log_lines.induct) simp_all

section \<open>The claims about \<open>cleanAuths\<close> and \<open>RoundTrip\<close>\<close>

text \<open>
  Claim C4. \<open>cleanAuths\<close> applies \<open>cleanAuth\<close> once for each prefix of the
  configured list \<open>Auth\<close>, in the order of the list, each pass on the output of the
  pass before it. The default list is \<open>Authorization: \<close>, \<open>X-Auth-Token: \<close>, and with
  it the input of the repository's test comes out with both values masked as \<open>XXXX\<close>
  and the line \<open>Potato: Help\<close> untouched.
\<close>

theorem cleanAuths_in_order:
  "cleanAuths t buf =
     fold (\<lambda>authBuf r. r \<bind> (\<lambda>b. cleanAuth b authBuf))
       (case Auth (opt t) of None \<Rightarrow> [] | Some auths \<Rightarrow> auths) (Some buf) \<and>
   Auth (opt (New None transport)) = Some [''Authorization: '', ''X-Auth-Token: ''] \<and>
   cleanAuths (New None transport)
       ''X-Auth-Token: AAAAAAAAA\<newline>Authorization: AAAAAAAAA\<newline>Potato: Help\<newline>'' =
     Some ''X-Auth-Token: XXXX\<newline>Authorization: XXXX\<newline>Potato: Help\<newline>''"
proof (intro conjI)
  show "cleanAuths t buf =
     fold (\<lambda>authBuf r. r \<bind> (\<lambda>b. cleanAuth b authBuf))
       (case Auth (opt t) of None \<Rightarrow> [] | Some auths \<Rightarrow> auths) (Some buf)"
    unfolding cleanAuths_def by (rule cleanAuths_range_fold)
  show "Auth (opt (New None transport)) = Some [''Authorization: '', ''X-Auth-Token: '']"
    by (simp add: New_def DefaultOptions_def DefaultAuth_def)
  show "cleanAuths (New None transport)
       ''X-Auth-Token: AAAAAAAAA\<newline>Authorization: AAAAAAAAA\<newline>Potato: Help\<newline>'' =
     Some ''X-Auth-Token: XXXX\<newline>Authorization: XXXX\<newline>Potato: Help\<newline>''"
    by code_simp
qed

text \<open>
  Claim C1 says that the dump of the response is passed through \<open>cleanAuths\<close> before
  it is logged, as the dump of the request is. The code logs the request dump redacted
  and the response dump as it is: with the default options, the header
  \<open>Authorization: POTATO\<close> of the request is logged as \<open>Authorization: XXXX\<close>, and the
  header \<open>X-Auth-Token: SECRET\<close> of the response is logged in full, although
  \<open>cleanAuths\<close> on that dump would mask it.
\<close>

theorem RoundTrip_response_not_redacted:
  "RoundTrip example_httputil (New None ok_transport) 7 =
     Some ((200, None),
       [Logf ''%s'' [Str SeparatorReq],
        Logf ''%s (req %p)'' [Str ''HTTP REQUEST'', Ptr 7],
        Call_DumpRequestOut 7 False,
        Logf ''%s'' [Str (''PUT / HTTP/1.1'' @ [CR, LF] @ ''Authorization: XXXX'' @ [LF, CR, LF])],
        Logf ''%s'' [Str SeparatorReq],
        Call_RoundTrip 7,
        Logf ''%s'' [Str SeparatorResp],
        Logf ''%s (req %p)'' [Str ''HTTP RESPONSE'', Ptr 7],
        Call_DumpResponse 200 False,
        Logf ''%s'' [Str (''HTTP/1.1 200 OK'' @ [CR, LF] @ ''X-Auth-Token: SECRET'' @ [CR, LF, CR, LF])],
        Logf ''%s'' [Str SeparatorResp]]) \<and>
   cleanAuths (New None ok_transport)
       (''HTTP/1.1 200 OK'' @ [CR, LF] @ ''X-Auth-Token: SECRET'' @ [CR, LF, CR, LF]) =
     Some (''HTTP/1.1 200 OK'' @ [CR, LF] @ ''X-Auth-Token: XXXX'' @ [LF, CR, LF])"
  by code_simp



text \<open>
  Claim C6. With \<open>Flags = DumpHeaders\<close>, when the dispatch and both dumps succeed, the
  logging function is called exactly 8 times, in this order: request separator,
  request banner, request dump (redacted), request separator, response separator,
  response banner, response dump, response separator. Both dumps are asked for without
  the body.
\<close>

theorem RoundTrip_headers_only_eight_lines:
  assumes "Flags (opt t) = DumpHeaders"
    and "Transport t req = (resp, None)"
    and "DumpRequestOut h req False = (reqbuf, None)"
    and "DumpResponse h resp False = (respbuf, None)"
  shows "\<exists>out tr.
     cleanAuths t reqbuf = Some out \<and>
     RoundTrip h t req = Some ((resp, None), tr) \<and>
     log_lines tr =
       [(''%s'', [Str SeparatorReq]),
        (''%s (req %p)'', [Str ''HTTP REQUEST'', Ptr req]),
        (''%s'', [Str out]),
        (''%s'', [Str SeparatorReq]),
        (''%s'', [Str SeparatorResp]),
        (''%s (req %p)'', [Str ''HTTP RESPONSE'', Ptr req]),
        (''%s'', [Str respbuf]),
        (''%s'', [Str SeparatorResp])] \<and>
     length (log_lines tr) = 8 \<and>
     Call_DumpRequestOut req False \<in> set tr \<and> Call_DumpResponse resp False \<in> set tr"
proof -
  obtain out where ca: "cleanAuths t reqbuf = Some out"
    using cleanAuths_Some by blast
  have "RoundTrip h t req = Some ((resp, None),
       [Logf ''%s'' [Str SeparatorReq],
        Logf ''%s (req %p)'' [Str ''HTTP REQUEST'', Ptr req],
        Call_DumpRequestOut req False,
        Logf ''%s'' [Str out],
        Logf ''%s'' [Str SeparatorReq],
        Call_RoundTrip req,
        Logf ''%s'' [Str SeparatorResp],
        Logf ''%s (req %p)'' [Str ''HTTP RESPONSE'', Ptr req],
        Call_DumpResponse resp False,
        Logf ''%s'' [Str respbuf],
        Logf ''%s'' [Str SeparatorResp]])"
    unfolding RoundTrip_def assms(1) using DumpHeaders_masks
    by (simp add: assms(2-4) ca)
  with ca show ?thesis by simp
qed

text \<open>
  The theorem of claim C6 at the default options and the example collaborators.
\<close>

theorem RoundTrip_headers_only_eight_lines_witness:
  "\<exists>tr. RoundTrip example_httputil (New None ok_transport) 7 = Some ((200, None), tr) \<and>
     length (log_lines tr) = 8 \<and>
     map fst (log_lines tr) =
       [''%s'', ''%s (req %p)'', ''%s'', ''%s'', ''%s'', ''%s (req %p)'', ''%s'', ''%s'']"
proof -
  have 1: "Flags (opt (New None ok_transport)) = DumpHeaders"
    by (simp add: New_def DefaultOptions_def)
  have 2: "Transport (New None ok_transport) 7 = (200, None)"
    by (simp add: New_def DefaultOptions_def ok_transport_def)
  have 3: "DumpRequestOut example_httputil 7 False = (example_request_dump False, None)"
    by (simp add: example_httputil_def)
  have 4: "DumpResponse example_httputil 200 False = (example_response_dump False, None)"
    by (simp add: example_httputil_def)
  from RoundTrip_headers_only_eight_lines [OF 1 2 3 4]
  obtain out tr where "RoundTrip example_httputil (New None ok_transport) 7 = Some ((200, None), tr)"
    and "log_lines tr =
       [(''%s'', [Str SeparatorReq]),
        (''%s (req %p)'', [Str ''HTTP REQUEST'', Ptr 7]),
        (''%s'', [Str out]),
        (''%s'', [Str SeparatorReq]),
        (''%s'', [Str SeparatorResp]),
        (''%s (req %p)'', [Str ''HTTP RESPONSE'', Ptr 7]),
        (''%s'', [Str (example_response_dump False)]),
        (''%s'', [Str SeparatorResp])]"
    by blast
  then show ?thesis by simp
qed

text \<open>
  Claim C7. In every round trip, the request dump is asked to include the body if and
  only if \<open>DumpBodies\<close> or \<open>DumpRequests\<close> is set, and the response dump if and only
  if \<open>DumpBodies\<close> or \<open>DumpResponses\<close> is set; with neither flag set the argument is
  false and only the headers are dumped. When logging is enabled, the block logged for
  the request is what \<open>DumpRequestOut\<close> returns for that argument (its buffer, redacted
  unless \<open>DumpAuth\<close> is set, or its error), and when the dispatch succeeded the block
  logged for the response is what \<open>DumpResponse\<close> returns for its argument.
\<close>

theorem RoundTrip_body_arguments:
  "\<exists>tr. RoundTrip h t req = Some (Transport t req, tr) \<and>
     (\<forall>q b. Call_DumpRequestOut q b \<in> set tr \<longrightarrow>
        q = req \<and> (b \<longleftrightarrow> Flags (opt t) AND DumpBodies \<noteq> 0 \<or> Flags (opt t) AND DumpRequests \<noteq> 0)) \<and>
     (\<forall>p b. Call_DumpResponse p b \<in> set tr \<longrightarrow>
        p = fst (Transport t req) \<and>
        (b \<longleftrightarrow> Flags (opt t) AND DumpBodies \<noteq> 0 \<or> Flags (opt t) AND DumpResponses \<noteq> 0)) \<and>
     (Flags (opt t) AND DumpHeaders \<noteq> 0 \<or> Flags (opt t) AND DumpBodies \<noteq> 0 \<or>
      Flags (opt t) AND DumpRequests \<noteq> 0 \<or> Flags (opt t) AND DumpResponses \<noteq> 0 \<or>
      Flags (opt t) AND DumpAuth \<noteq> 0 \<longrightarrow>
        (\<exists>b. Call_DumpRequestOut req b \<in> set tr) \<and>
        (snd (Transport t req) = None \<longrightarrow>
           (\<exists>b. Call_DumpResponse (fst (Transport t req)) b \<in> set tr)) \<and>
        (\<exists>reqblock respblock.
           log_lines tr =
             [(''%s'', [Str SeparatorReq]),
              (''%s (req %p)'', [Str ''HTTP REQUEST'', Ptr req]),
              reqblock,
              (''%s'', [Str SeparatorReq]),
              (''%s'', [Str SeparatorResp]),
              (''%s (req %p)'', [Str ''HTTP RESPONSE'', Ptr req]),
              respblock,
              (''%s'', [Str SeparatorResp])] \<and>
           (case DumpRequestOut h req
                   (Flags (opt t) AND DumpBodies \<noteq> 0 \<or> Flags (opt t) AND DumpRequests \<noteq> 0) of
              (buf, Some e) \<Rightarrow> reqblock = (''Dump request failed: %v'', [Err e])
            | (buf, None) \<Rightarrow>
                if Flags (opt t) AND DumpAuth = 0
                then \<exists>out. cleanAuths t buf = Some out \<and> reqblock = (''%s'', [Str out])
                else reqblock = (''%s'', [Str buf])) \<and>
           (case Transport t req of
              (resp, Some e) \<Rightarrow> respblock = (''HTTP request failed: %v'', [Err e])
            | (resp, None) \<Rightarrow>
                (case DumpResponse h resp
                        (Flags (opt t) AND DumpBodies \<noteq> 0 \<or> Flags (opt t) AND DumpResponses \<noteq> 0) of
                   (buf, Some e) \<Rightarrow> respblock = (''Dump response failed: %v'', [Err e])
                 | (buf, None) \<Rightarrow> respblock = (''%s'', [Str buf])))))"
proof (cases "Flags (opt t) AND (DumpHeaders OR DumpBodies OR DumpAuth OR DumpRequests OR DumpResponses) = 0")
  case True
  then have "RoundTrip h t req = Some (Transport t req, [Call_RoundTrip req])"
    by (rule RoundTrip_disabled)
  moreover have "\<not> (Flags (opt t) AND DumpHeaders \<noteq> 0 \<or> Flags (opt t) AND DumpBodies \<noteq> 0 \<or>
        Flags (opt t) AND DumpRequests \<noteq> 0 \<or> Flags (opt t) AND DumpResponses \<noteq> 0 \<or>
        Flags (opt t) AND DumpAuth \<noteq> 0)"
    using True logging_mask_iff [of "Flags (opt t)"] by blast
  ultimately show ?thesis by simp
next
  case False
  define breq where "breq \<longleftrightarrow> Flags (opt t) AND DumpBodies \<noteq> 0 \<or> Flags (opt t) AND DumpRequests \<noteq> 0"
  define bresp where "bresp \<longleftrightarrow> Flags (opt t) AND DumpBodies \<noteq> 0 \<or> Flags (opt t) AND DumpResponses \<noteq> 0"
  have bq: "Flags (opt t) AND (DumpBodies OR DumpRequests) \<noteq> 0 \<longleftrightarrow> breq"
    unfolding breq_def by (rule flags_or_iff)
  have bp: "Flags (opt t) AND (DumpBodies OR DumpResponses) \<noteq> 0 \<longleftrightarrow> bresp"
    unfolding bresp_def by (rule flags_or_iff)
  obtain rbuf derr where dq: "DumpRequestOut h req breq = (rbuf, derr)"
    by (cases "DumpRequestOut h req breq")
  obtain resp err where tr: "Transport t req = (resp, err)"
    by (cases "Transport t req")
  obtain pbuf perr where dp: "DumpResponse h resp bresp = (pbuf, perr)"
    by (cases "DumpResponse h resp bresp")
  from RoundTrip_enabled [OF False, of h req]
  obtain dreq dresp where rt: "RoundTrip h t req =
       Some (Transport t req,
             [Logf ''%s'' [Str SeparatorReq],
              Logf ''%s (req %p)'' [Str ''HTTP REQUEST'', Ptr req],
              Call_DumpRequestOut req breq] @
             dreq @
             [Logf ''%s'' [Str SeparatorReq],
              Call_RoundTrip req,
              Logf ''%s'' [Str SeparatorResp],
              Logf ''%s (req %p)'' [Str ''HTTP RESPONSE'', Ptr req]] @
             dresp @
             [Logf ''%s'' [Str SeparatorResp]])"
    and a: "case DumpRequestOut h req breq of
        (buf, Some e) \<Rightarrow> dreq = [Logf ''Dump request failed: %v'' [Err e]]
      | (buf, None) \<Rightarrow>
          if Flags (opt t) AND DumpAuth = 0
          then \<exists>out. cleanAuths t buf = Some out \<and> dreq = [Logf ''%s'' [Str out]]
          else dreq = [Logf ''%s'' [Str buf]]"
    and b: "case Transport t req of
        (resp, Some e) \<Rightarrow> dresp = [Logf ''HTTP request failed: %v'' [Err e]]
      | (resp, None) \<Rightarrow>
          (case DumpResponse h resp bresp of
             (buf, Some e) \<Rightarrow>
               dresp = [Call_DumpResponse resp bresp, Logf ''Dump response failed: %v'' [Err e]]
           | (buf, None) \<Rightarrow>
               dresp = [Call_DumpResponse resp bresp, Logf ''%s'' [Str buf]])"
    unfolding bq bp by (elim exE conjE) (rule that; assumption)
  define reqblock where "reqblock = hd (log_lines dreq)"
  define respblock where "respblock = hd (log_lines dresp)"
  have lq: "log_lines dreq = [reqblock]"
    using a by (cases derr) (auto simp: reqblock_def dq split: if_splits)
  have lp: "log_lines dresp = [respblock]"
    using b by (cases err; cases perr) (simp_all add: respblock_def tr dp)
  have sq: "case DumpRequestOut h req breq of
              (buf, Some e) \<Rightarrow> reqblock = (''Dump request failed: %v'', [Err e])
            | (buf, None) \<Rightarrow>
                if Flags (opt t) AND DumpAuth = 0
                then \<exists>out. cleanAuths t buf = Some out \<and> reqblock = (''%s'', [Str out])
                else reqblock = (''%s'', [Str buf])"
    using a by (cases derr) (auto simp: reqblock_def dq split: if_splits)
  have sp: "case Transport t req of
              (resp, Some e) \<Rightarrow> respblock = (''HTTP request failed: %v'', [Err e])
            | (resp, None) \<Rightarrow>
                (case DumpResponse h resp bresp of
                   (buf, Some e) \<Rightarrow> respblock = (''Dump response failed: %v'', [Err e])
                 | (buf, None) \<Rightarrow> respblock = (''%s'', [Str buf]))"
    using b by (cases err; cases perr) (simp_all add: respblock_def tr dp)
  have ll: "log_lines ([Logf ''%s'' [Str SeparatorReq],
              Logf ''%s (req %p)'' [Str ''HTTP REQUEST'', Ptr req],
              Call_DumpRequestOut req breq] @
             dreq @
             [Logf ''%s'' [Str SeparatorReq],
              Call_RoundTrip req,
              Logf ''%s'' [Str SeparatorResp],
              Logf ''%s (req %p)'' [Str ''HTTP RESPONSE'', Ptr req]] @
             dresp @
             [Logf ''%s'' [Str SeparatorResp]]) =
             [(''%s'', [Str SeparatorReq]),
              (''%s (req %p)'', [Str ''HTTP REQUEST'', Ptr req]),
              reqblock,
              (''%s'', [Str SeparatorReq]),
              (''%s'', [Str SeparatorResp]),
              (''%s (req %p)'', [Str ''HTTP RESPONSE'', Ptr req]),
              respblock,
              (''%s'', [Str SeparatorResp])]"
    by (simp add: log_lines_append lq lp)
  have labels_q: "\<forall>q b. Call_DumpRequestOut q b \<in> set dreq \<or> Call_DumpRequestOut q b \<in> set dresp \<longrightarrow> False"
    using a b by (cases derr; cases err; cases perr) (auto simp: dq tr dp split: if_splits)
  have labels_p: "\<forall>p b. Call_DumpResponse p b \<in> set dreq \<or> Call_DumpResponse p b \<in> set dresp \<longrightarrow>
      p = resp \<and> b = bresp"
    using a b by (cases derr; cases err; cases perr) (auto simp: dq tr dp split: if_splits)
  have has_p: "err = None \<longrightarrow> Call_DumpResponse resp bresp \<in> set dresp"
    using b by (cases err; cases perr) (simp_all add: tr dp)
  show ?thesis
    apply (rule exI [of _ "[Logf ''%s'' [Str SeparatorReq],
              Logf ''%s (req %p)'' [Str ''HTTP REQUEST'', Ptr req],
              Call_DumpRequestOut req breq] @
             dreq @
             [Logf ''%s'' [Str SeparatorReq],
              Call_RoundTrip req,
              Logf ''%s'' [Str SeparatorResp],
              Logf ''%s (req %p)'' [Str ''HTTP RESPONSE'', Ptr req]] @
             dresp @
             [Logf ''%s'' [Str SeparatorResp]]"])
    apply (intro conjI)
       apply (rule rt)
      subgoal using labels_q by (auto simp: breq_def)
     subgoal using labels_p by (auto simp: bresp_def tr)
    apply (rule impI)
    apply (intro conjI)
      subgoal by auto
     subgoal using has_p by (auto simp: tr)
    apply (rule exI [of _ reqblock])
    apply (rule exI [of _ respblock])
    apply (intro conjI)
      apply (rule ll)
     apply (fold breq_def bresp_def)
     apply (rule sq)
    apply (rule sp)
    done
qed

text \<open>
  The theorem of claim C7 at \<open>Flags = DumpRequests\<close>, with dump functions whose result
  depends on the argument: the request is dumped and logged with its body, the response
  without.
\<close>

theorem RoundTrip_body_arguments_witness:
  "\<exists>tr. RoundTrip example_httputil
        \<lparr>Transport = ok_transport, opt = \<lparr>Flags = DumpRequests, Auth = Some DefaultAuth\<rparr>\<rparr> 7 =
      Some ((200, None), tr) \<and>
     Call_DumpRequestOut 7 True \<in> set tr \<and> Call_DumpResponse 200 False \<in> set tr \<and>
     log_lines tr ! 2 =
       (''%s'', [Str (''PUT / HTTP/1.1'' @ [CR, LF] @ ''Authorization: XXXX'' @ [LF, CR, LF] @
                      ''Request text'')]) \<and>
     log_lines tr ! 6 =
       (''%s'', [Str (''HTTP/1.1 200 OK'' @ [CR, LF] @ ''X-Auth-Token: SECRET'' @ [CR, LF, CR, LF])])"
proof -
  define t where "t = \<lparr>Transport = ok_transport, opt = \<lparr>Flags = DumpRequests, Auth = Some DefaultAuth\<rparr>\<rparr>"
  have f: "Flags (opt t) AND DumpRequests \<noteq> 0" "Flags (opt t) AND DumpBodies = 0"
    "Flags (opt t) AND DumpResponses = 0" "Flags (opt t) AND DumpAuth = 0"
    by (simp_all add: t_def DumpRequests_def DumpBodies_def DumpResponses_def DumpAuth_def)
  have d: "Transport t 7 = (200, None)"
    by (simp add: t_def ok_transport_def)
  have ca: "cleanAuths t (example_request_dump True) =
      Some (''PUT / HTTP/1.1'' @ [CR, LF] @ ''Authorization: XXXX'' @ [LF, CR, LF] @ ''Request text'')"
    unfolding t_def by code_simp
  from RoundTrip_body_arguments [of example_httputil t 7]
  obtain tr where rt: "RoundTrip example_httputil t 7 = Some (Transport t 7, tr)"
    and q: "\<forall>q b. Call_DumpRequestOut q b \<in> set tr \<longrightarrow>
        q = 7 \<and> (b \<longleftrightarrow> Flags (opt t) AND DumpBodies \<noteq> 0 \<or> Flags (opt t) AND DumpRequests \<noteq> 0)"
    and p: "\<forall>p b. Call_DumpResponse p b \<in> set tr \<longrightarrow>
        p = fst (Transport t 7) \<and>
        (b \<longleftrightarrow> Flags (opt t) AND DumpBodies \<noteq> 0 \<or> Flags (opt t) AND DumpResponses \<noteq> 0)"
    and e: "Flags (opt t) AND DumpHeaders \<noteq> 0 \<or> Flags (opt t) AND DumpBodies \<noteq> 0 \<or>
      Flags (opt t) AND DumpRequests \<noteq> 0 \<or> Flags (opt t) AND DumpResponses \<noteq> 0 \<or>
      Flags (opt t) AND DumpAuth \<noteq> 0 \<longrightarrow>
        (\<exists>b. Call_DumpRequestOut 7 b \<in> set tr) \<and>
        (snd (Transport t 7) = None \<longrightarrow>
           (\<exists>b. Call_DumpResponse (fst (Transport t 7)) b \<in> set tr)) \<and>
        (\<exists>reqblock respblock.
           log_lines tr =
             [(''%s'', [Str SeparatorReq]),
              (''%s (req %p)'', [Str ''HTTP REQUEST'', Ptr 7]),
              reqblock,
              (''%s'', [Str SeparatorReq]),
              (''%s'', [Str SeparatorResp]),
              (''%s (req %p)'', [Str ''HTTP RESPONSE'', Ptr 7]),
              respblock,
              (''%s'', [Str SeparatorResp])] \<and>
           (case DumpRequestOut example_httputil 7
                   (Flags (opt t) AND DumpBodies \<noteq> 0 \<or> Flags (opt t) AND DumpRequests \<noteq> 0) of
              (buf, Some e) \<Rightarrow> reqblock = (''Dump request failed: %v'', [Err e])
            | (buf, None) \<Rightarrow>
                if Flags (opt t) AND DumpAuth = 0
                then \<exists>out. cleanAuths t buf = Some out \<and> reqblock = (''%s'', [Str out])
                else reqblock = (''%s'', [Str buf])) \<and>
           (case Transport t 7 of
              (resp, Some e) \<Rightarrow> respblock = (''HTTP request failed: %v'', [Err e])
            | (resp, None) \<Rightarrow>
                (case DumpResponse example_httputil resp
                        (Flags (opt t) AND DumpBodies \<noteq> 0 \<or> Flags (opt t) AND DumpResponses \<noteq> 0) of
                   (buf, Some e) \<Rightarrow> respblock = (''Dump response failed: %v'', [Err e])
                 | (buf, None) \<Rightarrow> respblock = (''%s'', [Str buf]))))"
    by (elim exE conjE) (rule that; assumption)
  from e f(1) have e1: "\<exists>b. Call_DumpRequestOut 7 b \<in> set tr"
    and e2: "\<exists>b. Call_DumpResponse 200 b \<in> set tr"
    and e3: "\<exists>reqblock respblock.
           log_lines tr =
             [(''%s'', [Str SeparatorReq]),
              (''%s (req %p)'', [Str ''HTTP REQUEST'', Ptr 7]),
              reqblock,
              (''%s'', [Str SeparatorReq]),
              (''%s'', [Str SeparatorResp]),
              (''%s (req %p)'', [Str ''HTTP RESPONSE'', Ptr 7]),
              respblock,
              (''%s'', [Str SeparatorResp])] \<and>
           reqblock = (''%s'', [Str (''PUT / HTTP/1.1'' @ [CR, LF] @ ''Authorization: XXXX'' @
                                      [LF, CR, LF] @ ''Request text'')]) \<and>
           respblock = (''%s'', [Str (example_response_dump False)])"
    by (simp_all add: d f(2-4) example_httputil_def ca)
  from e1 obtain b1 where b1: "Call_DumpRequestOut 7 b1 \<in> set tr" ..
  from q [rule_format, OF b1] f have "b1" by simp
  with b1 have r1: "Call_DumpRequestOut 7 True \<in> set tr" by simp
  from e2 obtain b2 where b2: "Call_DumpResponse 200 b2 \<in> set tr" ..
  from p [rule_format, OF b2] f have "\<not> b2" by simp
  with b2 have r2: "Call_DumpResponse 200 False \<in> set tr" by simp
  from e3 have r3: "log_lines tr ! 2 =
       (''%s'', [Str (''PUT / HTTP/1.1'' @ [CR, LF] @ ''Authorization: XXXX'' @ [LF, CR, LF] @
                      ''Request text'')])"
    and r4: "log_lines tr ! 6 =
       (''%s'', [Str (''HTTP/1.1 200 OK'' @ [CR, LF] @ ''X-Auth-Token: SECRET'' @ [CR, LF, CR, LF])])"
    by (auto simp: example_response_dump_def)
  from rt have "RoundTrip example_httputil t 7 = Some ((200, None), tr)"
    by (simp only: d)
  with r1 r2 r3 r4 show ?thesis unfolding t_def by (intro exI [of _ tr] conjI)
qed

text \<open>
  Claim C8, as amended. For every request, \<open>RoundTrip\<close> returns exactly the pair that
  the wrapped transport returned, whatever the dumps and the flags are. When the dispatch
  fails and at least one verbosity flag is set, the response section of the log is the
  separator, the banner, the line \<open>HTTP request failed: %v\<close> with the error, and the
  separator.
\<close>

theorem RoundTrip_returns_dispatch_result:
  "\<exists>tr. RoundTrip h t req = Some (Transport t req, tr) \<and>
     (\<forall>e. snd (Transport t req) = Some e \<and>
          (Flags (opt t) AND DumpHeaders \<noteq> 0 \<or> Flags (opt t) AND DumpBodies \<noteq> 0 \<or>
           Flags (opt t) AND DumpRequests \<noteq> 0 \<or> Flags (opt t) AND DumpResponses \<noteq> 0 \<or>
           Flags (opt t) AND DumpAuth \<noteq> 0) \<longrightarrow>
        (\<exists>before. tr = before @
           [Call_RoundTrip req,
            Logf ''%s'' [Str SeparatorResp],
            Logf ''%s (req %p)'' [Str ''HTTP RESPONSE'', Ptr req],
            Logf ''HTTP request failed: %v'' [Err e],
            Logf ''%s'' [Str SeparatorResp]]))"
proof (cases "Flags (opt t) AND (DumpHeaders OR DumpBodies OR DumpAuth OR DumpRequests OR DumpResponses) = 0")
  case True
  then have "RoundTrip h t req = Some (Transport t req, [Call_RoundTrip req])"
    by (rule RoundTrip_disabled)
  moreover have "\<not> (Flags (opt t) AND DumpHeaders \<noteq> 0 \<or> Flags (opt t) AND DumpBodies \<noteq> 0 \<or>
        Flags (opt t) AND DumpRequests \<noteq> 0 \<or> Flags (opt t) AND DumpResponses \<noteq> 0 \<or>
        Flags (opt t) AND DumpAuth \<noteq> 0)"
    using True logging_mask_iff [of "Flags (opt t)"] by blast
  ultimately show ?thesis by simp
next
  case False
  from RoundTrip_enabled_shape [OF False, of h req]
  obtain dreq dresp where rt: "RoundTrip h t req =
       Some (Transport t req,
             [Logf ''%s'' [Str SeparatorReq],
              Logf ''%s (req %p)'' [Str ''HTTP REQUEST'', Ptr req],
              Call_DumpRequestOut req (Flags (opt t) AND (DumpBodies OR DumpRequests) \<noteq> 0)] @
             dreq @
             [Logf ''%s'' [Str SeparatorReq],
              Call_RoundTrip req,
              Logf ''%s'' [Str SeparatorResp],
              Logf ''%s (req %p)'' [Str ''HTTP RESPONSE'', Ptr req]] @
             dresp @
             [Logf ''%s'' [Str SeparatorResp]])"
    and dp: "case snd (Transport t req) of
        Some e \<Rightarrow> dresp = [Logf ''HTTP request failed: %v'' [Err e]]
      | None \<Rightarrow> (\<exists>fmt args. dresp =
          [Call_DumpResponse (fst (Transport t req))
             (Flags (opt t) AND (DumpBodies OR DumpResponses) \<noteq> 0), Logf fmt args])"
    by blast
  have "\<exists>before. [Logf ''%s'' [Str SeparatorReq],
              Logf ''%s (req %p)'' [Str ''HTTP REQUEST'', Ptr req],
              Call_DumpRequestOut req (Flags (opt t) AND (DumpBodies OR DumpRequests) \<noteq> 0)] @
             dreq @
             [Logf ''%s'' [Str SeparatorReq],
              Call_RoundTrip req,
              Logf ''%s'' [Str SeparatorResp],
              Logf ''%s (req %p)'' [Str ''HTTP RESPONSE'', Ptr req]] @
             dresp @
             [Logf ''%s'' [Str SeparatorResp]] = before @
           [Call_RoundTrip req,
            Logf ''%s'' [Str SeparatorResp],
            Logf ''%s (req %p)'' [Str ''HTTP RESPONSE'', Ptr req],
            Logf ''HTTP request failed: %v'' [Err e],
            Logf ''%s'' [Str SeparatorResp]]"
    if "snd (Transport t req) = Some e" for e
    using dp that
    by (intro exI [of _ "[Logf ''%s'' [Str SeparatorReq],
              Logf ''%s (req %p)'' [Str ''HTTP REQUEST'', Ptr req],
              Call_DumpRequestOut req (Flags (opt t) AND (DumpBodies OR DumpRequests) \<noteq> 0)] @
             dreq @ [Logf ''%s'' [Str SeparatorReq]]"]) simp
  then show ?thesis unfolding rt by blast
qed

text \<open>
  The theorem of claim C8 at \<open>Flags = DumpBodies\<close> and a transport that fails.
\<close>

theorem RoundTrip_returns_dispatch_result_witness:
  "\<exists>before. RoundTrip example_httputil
        \<lparr>Transport = failing_transport, opt = \<lparr>Flags = DumpBodies, Auth = Some DefaultAuth\<rparr>\<rparr> 7 =
      Some ((0, Some ''connection refused''), before @
           [Call_RoundTrip 7,
            Logf ''%s'' [Str SeparatorResp],
            Logf ''%s (req %p)'' [Str ''HTTP RESPONSE'', Ptr 7],
            Logf ''HTTP request failed: %v'' [Err ''connection refused''],
            Logf ''%s'' [Str SeparatorResp]])"
proof -
  define t where "t = \<lparr>Transport = failing_transport, opt = \<lparr>Flags = DumpBodies, Auth = Some DefaultAuth\<rparr>\<rparr>"
  have f: "Flags (opt t) AND DumpBodies \<noteq> 0"
    by (simp add: t_def DumpBodies_def)
  have d: "Transport t 7 = (0, Some ''connection refused'')"
    by (simp add: t_def failing_transport_def)
  from RoundTrip_returns_dispatch_result [of example_httputil t 7]
  obtain tr where rt: "RoundTrip example_httputil t 7 = Some (Transport t 7, tr)"
    and l: "\<forall>e. snd (Transport t 7) = Some e \<and>
          (Flags (opt t) AND DumpHeaders \<noteq> 0 \<or> Flags (opt t) AND DumpBodies \<noteq> 0 \<or>
           Flags (opt t) AND DumpRequests \<noteq> 0 \<or> Flags (opt t) AND DumpResponses \<noteq> 0 \<or>
           Flags (opt t) AND DumpAuth \<noteq> 0) \<longrightarrow>
        (\<exists>before. tr = before @
           [Call_RoundTrip 7,
            Logf ''%s'' [Str SeparatorResp],
            Logf ''%s (req %p)'' [Str ''HTTP RESPONSE'', Ptr 7],
            Logf ''HTTP request failed: %v'' [Err e],
            Logf ''%s'' [Str SeparatorResp]])"
    by (elim exE conjE) (rule that; assumption)
  from l [rule_format, of "''connection refused''"] f
  obtain before where "tr = before @
           [Call_RoundTrip 7,
            Logf ''%s'' [Str SeparatorResp],
            Logf ''%s (req %p)'' [Str ''HTTP RESPONSE'', Ptr 7],
            Logf ''HTTP request failed: %v'' [Err ''connection refused''],
            Logf ''%s'' [Str SeparatorResp]]"
    unfolding d by auto
  moreover from rt have "RoundTrip example_httputil t 7 = Some ((0, Some ''connection refused''), tr)"
    by (simp only: d)
  ultimately show ?thesis unfolding t_def by (intro exI [of _ before]) simp
qed

text \<open>
  Claim C8 as stated has every failed dispatch logged. With \<open>Flags = 0\<close> the dispatch
  fails, the error is returned, and no line is logged.
\<close>

theorem RoundTrip_failure_not_logged_counterexample:
  "failing_transport 7 = (0, Some ''connection refused'') \<and>
   RoundTrip example_httputil
        \<lparr>Transport = failing_transport, opt = \<lparr>Flags = 0, Auth = Some DefaultAuth\<rparr>\<rparr> 7 =
      Some ((0, Some ''connection refused''), [Call_RoundTrip 7])"
  by (simp add: RoundTrip_def failing_transport_def)

end
